theory Spec2Isabelle
  imports Main "HOL-Library.AList"
begin

section \<open>Data model\<close>

text \<open>
  The rate limiter of the registration application (\<^verbatim>\<open>src/unnamed/part_000\<close>, imported by
  the route handlers as \<^verbatim>\<open>@/lib/rate-limit\<close>). JavaScript numbers are modelled as \<^typ>\<open>int\<close>:
  limits, window lengths, counters and millisecond timestamps are integers in every caller.
\<close>

text \<open>\<^verbatim>\<open>interface RateLimitResult { success; limit; remaining; reset }\<close>\<close>

record RateLimitResult =
  success :: bool
  limit :: int
  remaining :: int
  reset :: int

text \<open>The value type of \<^verbatim>\<open>memoryStore\<close>: \<^verbatim>\<open>{ count: number; resetAt: number }\<close>.\<close>

record counter =
  count :: int
  resetAt :: int

text \<open>
  \<^verbatim>\<open>const memoryStore = new Map<string, {count, resetAt}>()\<close>. A JavaScript \<^verbatim>\<open>Map\<close> keeps
  its entries in insertion order and holds every key once, so it is an association list whose
  keys are distinct: \<^verbatim>\<open>get\<close> is \<^const>\<open>map_of\<close>, \<^verbatim>\<open>set\<close> is \<^const>\<open>AList.update\<close> (overwrite in
  place, or append a new key) and \<^verbatim>\<open>delete\<close> is \<^const>\<open>AList.delete\<close>.
\<close>

type_synonym memory_store = "(string \<times> counter) list"

definition store_ok :: "memory_store \<Rightarrow> bool" where
  "store_ok m = distinct (map fst m)"

text \<open>
  The Upstash client \<^verbatim>\<open>redis\<close>. The store is outside the program, so the client is a
  parameter: three operations on a store state of any type \<open>'r\<close>, each of which either
  throws (\<open>Inl\<close>) or replies with a number (\<open>Inr\<close>), and each of which may change the store.
\<close>

datatype redis_error = RedisError string

record 'r redis_client =
  incr :: "string \<Rightarrow> 'r \<Rightarrow> (redis_error + int) \<times> 'r"
  expire :: "string \<Rightarrow> int \<Rightarrow> 'r \<Rightarrow> (redis_error + int) \<times> 'r"
  ttl :: "string \<Rightarrow> 'r \<Rightarrow> (redis_error + int) \<times> 'r"

text \<open>Everything a call can read or change: the shared store and the process-local map.\<close>

record 'r world =
  redis_state :: 'r
  memoryStore :: memory_store

section \<open>checkRateLimit\<close>

text \<open>
  The body of the \<^verbatim>\<open>try\<close> block (lines 42--59): \<^verbatim>\<open>incr\<close>, then \<^verbatim>\<open>expire\<close> when the
  count is exactly 1, then \<^verbatim>\<open>ttl\<close>. The first operation that throws ends the block with
  its error; the store keeps the effects of the operations that ran.
\<close>

definition redis_try ::
  "'r redis_client \<Rightarrow> string \<Rightarrow> int \<Rightarrow> int \<Rightarrow> int \<Rightarrow> int \<Rightarrow> 'r
     \<Rightarrow> (redis_error + RateLimitResult) \<times> 'r" where
  "redis_try client key lim windowSeconds now resetTime rs =
     (case incr client key rs of
        (Inl e, rs1) \<Rightarrow> (Inl e, rs1)
      | (Inr cnt, rs1) \<Rightarrow>
          (case (if cnt = 1 then expire client key windowSeconds rs1 else (Inr 0, rs1)) of
             (Inl e, rs2) \<Rightarrow> (Inl e, rs2)
           | (Inr _, rs2) \<Rightarrow>
               (case ttl client key rs2 of
                  (Inl e, rs3) \<Rightarrow> (Inl e, rs3)
                | (Inr t, rs3) \<Rightarrow>
                    (Inr \<lparr> success = cnt \<le> lim,
                           limit = lim,
                           remaining = max 0 (lim - cnt),
                           reset = (if t > 0 then now + t * 1000 else resetTime) \<rparr>,
                     rs3))))"

text \<open>
  The in-memory path (lines 69--89). A missing record, or one whose \<^verbatim>\<open>resetAt\<close> is before
  \<^verbatim>\<open>now\<close>, is replaced by a new window; otherwise \<^verbatim>\<open>record.count++\<close> changes the record
  that the map holds.
\<close>

definition memory_path ::
  "string \<Rightarrow> int \<Rightarrow> int \<Rightarrow> int \<Rightarrow> memory_store \<Rightarrow> RateLimitResult \<times> memory_store" where
  "memory_path key lim now resetTime m =
     (let new_window =
            (\<lparr> success = True, limit = lim, remaining = lim - 1, reset = resetTime \<rparr>,
             AList.update key \<lparr> count = 1, resetAt = resetTime \<rparr> m)
      in case map_of m key of
           None \<Rightarrow> new_window
         | Some record \<Rightarrow>
             if now > resetAt record then new_window
             else
               (let record' = record \<lparr> count := count record + 1 \<rparr>
                in (\<lparr> success = count record' \<le> lim,
                       limit = lim,
                       remaining = max 0 (lim - count record'),
                       reset = resetAt record' \<rparr>,
                    AList.update key record' m)))"

text \<open>
  \<^verbatim>\<open>checkRateLimit(identifier, limit, windowSeconds)\<close>. \<^verbatim>\<open>redis\<close> is the module constant
  (\<open>None\<close> when the credentials are not configured), \<open>now\<close> is the value \<^verbatim>\<open>Date.now()\<close>
  returns at line 36. The \<^verbatim>\<open>catch\<close> clause falls through to the in-memory path. The two
  console messages are not modelled.
\<close>

definition checkRateLimit ::
  "'r redis_client option \<Rightarrow> string \<Rightarrow> int \<Rightarrow> int \<Rightarrow> int \<Rightarrow> 'r world
     \<Rightarrow> RateLimitResult \<times> 'r world" where
  "checkRateLimit redis identifier lim windowSeconds now w =
     (let key = ''ratelimit:'' @ identifier;
          resetTime = now + windowSeconds * 1000;
          in_memory = (\<lambda>w1. case memory_path key lim now resetTime (memoryStore w1) of
                               (result, m) \<Rightarrow> (result, w1 \<lparr> memoryStore := m \<rparr>))
      in case redis of
           None \<Rightarrow> in_memory w
         | Some client \<Rightarrow>
             (case redis_try client key lim windowSeconds now resetTime (redis_state w) of
                (Inr result, rs) \<Rightarrow> (result, w \<lparr> redis_state := rs \<rparr>)
              | (Inl e, rs) \<Rightarrow> in_memory (w \<lparr> redis_state := rs \<rparr>)))"


section \<open>Limiting by address and by e-mail\<close>

text \<open>
  A request is seen only through \<^verbatim>\<open>req.headers.get\<close>, which returns \<^verbatim>\<open>null\<close> for a header
  the request does not carry. \<^verbatim>\<open>if (forwarded)\<close> is false for \<^verbatim>\<open>null\<close> and for the empty
  string. A header value is a byte string, one character per byte, so the characters
  that \<^verbatim>\<open>trim\<close> removes are the white space and line terminators below 256: tab, line
  feed, vertical tab, form feed, carriage return, space and the no-break space \<open>0xA0\<close>.
\<close>

type_synonym request = "string \<Rightarrow> string option"

definition truthy :: "string option \<Rightarrow> bool" where
  "truthy h = (case h of None \<Rightarrow> False | Some s \<Rightarrow> s \<noteq> [])"

definition is_space :: "char \<Rightarrow> bool" where
  "is_space c =
     (c \<in> set [CHR '' '', CHR 0x09, CHR 0x0A, CHR 0x0B, CHR 0x0C, CHR 0x0D, CHR 0xA0])"

definition trim :: "string \<Rightarrow> string" where
  "trim s = rev (dropWhile is_space (rev (dropWhile is_space s)))"

text \<open>\<^verbatim>\<open>s.split(',')[0]\<close>: the text before the first comma.\<close>

definition split_first :: "string \<Rightarrow> string" where
  "split_first s = takeWhile (\<lambda>c. c \<noteq> CHR '','') s"

definition getClientIP :: "request \<Rightarrow> string" where
  "getClientIP req =
     (let forwarded = req ''x-forwarded-for'';
          realIP = req ''x-real-ip'';
          cfConnectingIP = req ''cf-connecting-ip''
      in if truthy forwarded then trim (split_first (the forwarded))
         else if truthy realIP then the realIP
         else if truthy cfConnectingIP then the cfConnectingIP
         else ''unknown'')"

definition rateLimitByIP ::
  "'r redis_client option \<Rightarrow> request \<Rightarrow> int \<Rightarrow> int \<Rightarrow> int \<Rightarrow> 'r world
     \<Rightarrow> RateLimitResult \<times> 'r world" where
  "rateLimitByIP redis req lim windowSeconds now w =
     checkRateLimit redis (''ip:'' @ getClientIP req) lim windowSeconds now w"

definition rateLimitByEmail ::
  "'r redis_client option \<Rightarrow> string \<Rightarrow> int \<Rightarrow> int \<Rightarrow> int \<Rightarrow> 'r world
     \<Rightarrow> RateLimitResult \<times> 'r world" where
  "rateLimitByEmail redis email lim windowSeconds now w =
     checkRateLimit redis (''email:'' @ email) lim windowSeconds now w"

text \<open>
  \<^verbatim>\<open>rateLimitCombined\<close>. The array passed to \<^verbatim>\<open>Promise.all\<close> calls \<^verbatim>\<open>rateLimitByIP\<close>
  first and \<^verbatim>\<open>rateLimitByEmail\<close> second; each reads the clock when it starts (\<open>nowIP\<close>,
  \<open>nowEmail\<close>). Without a client neither call suspends, so the second runs on the state
  the first has left, which is what is written here. With a client the store operations of
  the two calls may arrive at the store in another order; the model takes the order in
  which the calls are started.
\<close>

definition rateLimitCombined ::
  "'r redis_client option \<Rightarrow> request \<Rightarrow> string \<Rightarrow> int \<Rightarrow> int \<Rightarrow> int \<Rightarrow> int \<Rightarrow> int \<Rightarrow> 'r world
     \<Rightarrow> RateLimitResult \<times> 'r world" where
  "rateLimitCombined redis req email ipLimit emailLimit windowSeconds nowIP nowEmail w =
     (case rateLimitByIP redis req ipLimit windowSeconds nowIP w of
        (ipResult, w1) \<Rightarrow>
          (case rateLimitByEmail redis email emailLimit windowSeconds nowEmail w1 of
             (emailResult, w2) \<Rightarrow>
               (if \<not> success ipResult then ipResult
                else if \<not> success emailResult then emailResult
                else \<lparr> success = True,
                       limit = min (limit ipResult) (limit emailResult),
                       remaining = min (remaining ipResult) (remaining emailResult),
                       reset = max (reset ipResult) (reset emailResult) \<rparr>,
                w2)))"

section \<open>cleanupMemoryStore\<close>

text \<open>
  The \<^verbatim>\<open>for ... of memoryStore.entries()\<close> loop: the entries are visited in order, and an
  entry whose \<^verbatim>\<open>resetAt\<close> is before \<open>now\<close> has its key deleted from the map.
\<close>

fun cleanup_loop :: "int \<Rightarrow> (string \<times> counter) list \<Rightarrow> memory_store \<Rightarrow> memory_store" where
  "cleanup_loop now [] m = m"
| "cleanup_loop now ((key, record) # entries) m =
     cleanup_loop now entries (if now > resetAt record then AList.delete key m else m)"

definition cleanupMemoryStore :: "int \<Rightarrow> memory_store \<Rightarrow> memory_store" where
  "cleanupMemoryStore now m = cleanup_loop now m m"

section \<open>Sequences of calls\<close>

text \<open>
  Successive calls of \<^verbatim>\<open>checkRateLimit\<close> with the same arguments. Each call comes with the
  client it sees and with its clock reading; the results are listed in call order.
\<close>

fun calls ::
  "string \<Rightarrow> int \<Rightarrow> int \<Rightarrow> ('r redis_client option \<times> int) list \<Rightarrow> 'r world
     \<Rightarrow> RateLimitResult list \<times> 'r world" where
  "calls identifier lim windowSeconds [] w = ([], w)"
| "calls identifier lim windowSeconds ((redis, now) # rest) w =
     (case checkRateLimit redis identifier lim windowSeconds now w of
        (result, w1) \<Rightarrow>
          (case calls identifier lim windowSeconds rest w1 of
             (results, w2) \<Rightarrow> (result # results, w2)))"

section \<open>A store that answers as the specification describes\<close>

text \<open>
  Modelled from the spec: the distributed store itself (the Upstash Redis service), which is
  not part of the repository. Section 4.1 of the specification gives its three operations:
  increment the counter of a key atomically, creating it at 1 if absent; set an expiry on the
  key; read back the remaining time to live. A key holds a number and, once an expiry is set,
  the time (in milliseconds) at which it ends. \<open>ref_redis c\<close> is the client whose
  operations reach the store at store time \<open>c\<close> and never throw. The time to live is
  reported in whole seconds, rounded to the nearest; \<open>-2\<close> stands for a missing key and
  \<open>-1\<close> for a key without expiry, as in Redis.
\<close>

type_synonym ref_store = "(string \<times> int \<times> int option) list"

text \<open>
  Modelled from the spec: what the store holds for a key at store time \<open>c\<close>; a key whose
  expiry has been reached is gone.
\<close>

definition ref_live :: "int \<Rightarrow> ref_store \<Rightarrow> string \<Rightarrow> (int \<times> int option) option" where
  "ref_live c m key =
     (case map_of m key of
        None \<Rightarrow> None
      | Some (v, None) \<Rightarrow> Some (v, None)
      | Some (v, Some e) \<Rightarrow> if e \<le> c then None else Some (v, Some e))"

text \<open>
  Modelled from the spec: the store's atomic increment, which creates the counter at 1 if
  absent and leaves an expiry as it is.
\<close>

definition ref_incr :: "int \<Rightarrow> string \<Rightarrow> ref_store \<Rightarrow> (redis_error + int) \<times> ref_store" where
  "ref_incr c key m =
     (case ref_live c m key of
        None \<Rightarrow> (Inr 1, AList.update key (1, None) m)
      | Some (v, ex) \<Rightarrow> (Inr (v + 1), AList.update key (v + 1, ex) m))"

text \<open>
  Modelled from the spec: the store's setting of an expiry, \<open>seconds\<close> from the store time;
  the reply is 1 when the key exists and 0 otherwise.
\<close>

definition ref_expire ::
  "int \<Rightarrow> string \<Rightarrow> int \<Rightarrow> ref_store \<Rightarrow> (redis_error + int) \<times> ref_store" where
  "ref_expire c key seconds m =
     (case ref_live c m key of
        None \<Rightarrow> (Inr 0, m)
      | Some (v, ex) \<Rightarrow>
          if seconds \<le> 0 then (Inr 1, AList.delete key m)
          else (Inr 1, AList.update key (v, Some (c + seconds * 1000)) m))"

text \<open>
  Modelled from the spec: the store's reading of the remaining time to live, in seconds.
\<close>

definition ref_ttl :: "int \<Rightarrow> string \<Rightarrow> ref_store \<Rightarrow> (redis_error + int) \<times> ref_store" where
  "ref_ttl c key m =
     (case ref_live c m key of
        None \<Rightarrow> (Inr (- 2), m)
      | Some (v, None) \<Rightarrow> (Inr (- 1), m)
      | Some (v, Some e) \<Rightarrow> (Inr ((e - c + 500) div 1000), m))"

text \<open>
  Modelled from the spec: the client of that store, all of whose operations arrive at store
  time \<open>c\<close>.
\<close>

definition ref_redis :: "int \<Rightarrow> ref_store redis_client" where
  "ref_redis c = \<lparr> incr = ref_incr c, expire = ref_expire c, ttl = ref_ttl c \<rparr>"

text \<open>
  A call is served by the in-memory path when there is no client, or when an operation of
  the client throws.
\<close>

definition uses_memory ::
  "'r redis_client option \<Rightarrow> string \<Rightarrow> int \<Rightarrow> int \<Rightarrow> int \<Rightarrow> 'r world \<Rightarrow> bool" where
  "uses_memory redis identifier lim windowSeconds now w =
     (case redis of
        None \<Rightarrow> True
      | Some client \<Rightarrow>
          isl (fst (redis_try client (''ratelimit:'' @ identifier) lim windowSeconds now
                      (now + windowSeconds * 1000) (redis_state w))))"

text \<open>
  A key is fresh for the in-memory path when line 71 takes the new-window branch: there is
  no record, or \<open>now\<close> is past its \<^verbatim>\<open>resetAt\<close>.
\<close>

definition fresh_local :: "string \<Rightarrow> int \<Rightarrow> memory_store \<Rightarrow> bool" where
  "fresh_local key now m =
     (case map_of m key of None \<Rightarrow> True | Some r \<Rightarrow> now > resetAt r)"

text \<open>
  A call against the store of the previous section is given by the store time at which its
  operations arrive and by the clock reading of the caller.
\<close>

definition at_store :: "int \<times> int \<Rightarrow> ref_store redis_client option \<times> int" where
  "at_store call = (Some (ref_redis (fst call)), snd call)"

text \<open>
  The record that the in-memory path leaves in the map for the key of the call: a new
  window with count 1, or the stored record with its count raised by one (lines 71--81).
\<close>

definition next_record :: "int \<Rightarrow> int \<Rightarrow> counter option \<Rightarrow> counter" where
  "next_record now resetTime stored =
     (case stored of
        None \<Rightarrow> \<lparr> count = 1, resetAt = resetTime \<rparr>
      | Some r \<Rightarrow>
          if now > resetAt r then \<lparr> count = 1, resetAt = resetTime \<rparr>
          else r \<lparr> count := count r + 1 \<rparr>)"

text \<open>
  The value that the key of a call holds in the store of the previous section after the
  sequence \<^verbatim>\<open>incr\<close>, \<^verbatim>\<open>expire\<close> (when the count is 1), \<^verbatim>\<open>ttl\<close> of lines 43--51.
\<close>

definition ref_next_value :: "int \<Rightarrow> int \<Rightarrow> (int \<times> int option) option \<Rightarrow> int \<times> int option" where
  "ref_next_value c windowSeconds live =
     (case live of
        None \<Rightarrow> (1, Some (c + windowSeconds * 1000))
      | Some (v, ex) \<Rightarrow> (v + 1, if v + 1 = 1 then Some (c + windowSeconds * 1000) else ex))"

section \<open>Basic facts\<close>

subsection \<open>The two paths of a call\<close>

lemma checkRateLimit_None:
  "checkRateLimit None identifier lim windowSeconds now w =
     (fst (memory_path (''ratelimit:'' @ identifier) lim now (now + windowSeconds * 1000) (memoryStore w)),
      w \<lparr> memoryStore :=
            snd (memory_path (''ratelimit:'' @ identifier) lim now (now + windowSeconds * 1000) (memoryStore w)) \<rparr>)"
  by (simp add: checkRateLimit_def split: prod.splits)

lemma checkRateLimit_Some:
  "checkRateLimit (Some client) identifier lim windowSeconds now w =
     (case redis_try client (''ratelimit:'' @ identifier) lim windowSeconds now
             (now + windowSeconds * 1000) (redis_state w) of
        (Inr result, rs) \<Rightarrow> (result, w \<lparr> redis_state := rs \<rparr>)
      | (Inl e, rs) \<Rightarrow>
          (fst (memory_path (''ratelimit:'' @ identifier) lim now (now + windowSeconds * 1000) (memoryStore w)),
           w \<lparr> redis_state := rs, memoryStore :=
             snd (memory_path (''ratelimit:'' @ identifier) lim now (now + windowSeconds * 1000) (memoryStore w)) \<rparr>))"
  by (simp add: checkRateLimit_def split: prod.splits sum.splits)

lemma checkRateLimit_uses_memory:
  assumes "uses_memory redis identifier lim windowSeconds now w"
  shows "fst (checkRateLimit redis identifier lim windowSeconds now w) =
           fst (memory_path (''ratelimit:'' @ identifier) lim now (now + windowSeconds * 1000) (memoryStore w))"
    and "memoryStore (snd (checkRateLimit redis identifier lim windowSeconds now w)) =
           snd (memory_path (''ratelimit:'' @ identifier) lim now (now + windowSeconds * 1000) (memoryStore w))"
  using assms
  by (auto simp: uses_memory_def checkRateLimit_None checkRateLimit_Some split: option.splits prod.splits sum.splits)

lemma memory_path_new_window:
  assumes "map_of m key = None \<or> (\<exists>record. map_of m key = Some record \<and> resetAt record < now)"
  shows "memory_path key lim now resetTime m =
           (\<lparr> success = True, limit = lim, remaining = lim - 1, reset = resetTime \<rparr>,
            AList.update key \<lparr> count = 1, resetAt = resetTime \<rparr> m)"
  using assms by (auto simp: memory_path_def)

lemma memory_path_same_window:
  assumes "map_of m key = Some record" and "\<not> resetAt record < now"
  shows "memory_path key lim now resetTime m =
           (\<lparr> success = count record + 1 \<le> lim, limit = lim,
               remaining = max 0 (lim - (count record + 1)), reset = resetAt record \<rparr>,
            AList.update key (record \<lparr> count := count record + 1 \<rparr>) m)"
  using assms by (simp add: memory_path_def Let_def)

subsection \<open>The map keeps its keys distinct\<close>

text \<open>
  The map is empty when the module is loaded, and neither a call nor a sweep can make a key
  occur twice; so \<^const>\<open>store_ok\<close> holds of every map the program can reach.
\<close>

lemma store_ok_Nil: "store_ok []"
  by (simp add: store_ok_def)

lemma store_ok_memory_path:
  "store_ok m \<Longrightarrow> store_ok (snd (memory_path key lim now resetTime m))"
  by (auto simp: store_ok_def memory_path_def Let_def distinct_update split: option.splits)

lemma store_ok_checkRateLimit:
  "store_ok (memoryStore w) \<Longrightarrow>
   store_ok (memoryStore (snd (checkRateLimit redis identifier lim windowSeconds now w)))"
  by (cases redis)
     (auto simp: checkRateLimit_None checkRateLimit_Some store_ok_memory_path
           split: prod.splits sum.splits)

subsection \<open>The sweep as a filter\<close>

text \<open>
  The loop deletes the keys of the expired entries it visits. Over the entries of the map
  itself, whose keys are distinct, that is the filter keeping the entries not yet expired.
\<close>

lemma cleanup_loop_filter:
  "cleanup_loop now entries m =
     filter (\<lambda>e. fst e \<notin> fst ` {x \<in> set entries. now > resetAt (snd x)}) m"
proof (induction entries arbitrary: m)
  case Nil
  show ?case by simp
next
  case (Cons entry entries)
  obtain key r where entry: "entry = (key, r)"
    by (cases entry)
  show ?case
  proof (cases "now > resetAt r")
    case True
    have "cleanup_loop now (entry # entries) m = cleanup_loop now entries (AList.delete key m)"
      using True entry by simp
    also have "\<dots> = filter (\<lambda>e. fst e \<notin> fst ` {x \<in> set entries. now > resetAt (snd x)})
                        (filter (\<lambda>e. fst e \<noteq> key) m)"
      by (simp add: Cons.IH AList.delete_eq case_prod_unfold eq_commute)
    also have "\<dots> = filter (\<lambda>e. fst e \<notin> fst ` {x \<in> set (entry # entries). now > resetAt (snd x)}) m"
    proof -
      have "fst ` {x \<in> set (entry # entries). now > resetAt (snd x)} =
              insert key (fst ` {x \<in> set entries. now > resetAt (snd x)})"
        using True entry by force
      then show ?thesis
        by (simp add: conj_commute)
    qed
    finally show ?thesis .
  next
    case False
    have "{x \<in> set (entry # entries). now > resetAt (snd x)} = {x \<in> set entries. now > resetAt (snd x)}"
      using False entry by auto
    then show ?thesis
      using False entry Cons.IH by simp
  qed
qed

lemma store_ok_same_key:
  assumes "store_ok m" and "e \<in> set m" and "x \<in> set m" and "fst e = fst x"
  shows "e = x"
  using assms unfolding store_ok_def
  by (metis eq_key_imp_eq_value prod.collapse)

lemma cleanupMemoryStore_filter:
  assumes "store_ok m"
  shows "cleanupMemoryStore now m = filter (\<lambda>(key, record). \<not> now > resetAt record) m"
proof -
  have "filter (\<lambda>e. fst e \<notin> fst ` {x \<in> set m. now > resetAt (snd x)}) m =
        filter (\<lambda>e. \<not> now > resetAt (snd e)) m"
  proof (rule filter_cong [OF refl])
    fix e assume e: "e \<in> set m"
    show "(fst e \<notin> fst ` {x \<in> set m. now > resetAt (snd x)}) = (\<not> now > resetAt (snd e))"
      using e store_ok_same_key [OF assms e] by force
  qed
  then show ?thesis
    by (simp add: cleanupMemoryStore_def cleanup_loop_filter case_prod_unfold)
qed

lemma store_ok_cleanupMemoryStore:
  "store_ok m \<Longrightarrow> store_ok (cleanupMemoryStore now m)"
  by (simp add: cleanupMemoryStore_filter) (simp add: store_ok_def distinct_map_filter)

lemma map_of_cleanupMemoryStore:
  assumes "store_ok m"
  shows "map_of (cleanupMemoryStore now m) key =
           (case map_of m key of
              None \<Rightarrow> None
            | Some record \<Rightarrow> if now > resetAt record then None else Some record)"
proof (cases "map_of m key")
  case None
  then have "key \<notin> fst ` set m"
    by (simp add: map_of_eq_None_iff)
  then have "key \<notin> fst ` set (cleanupMemoryStore now m)"
    by (auto simp: cleanupMemoryStore_filter [OF assms])
  then have "map_of (cleanupMemoryStore now m) key = None"
    by (rule map_of_eq_None_iff [THEN iffD2])
  then show ?thesis
    using None by simp
next
  case (Some stored)
  then have mem: "(key, stored) \<in> set m"
    by (rule map_of_SomeD)
  show ?thesis
  proof (cases "now > resetAt stored")
    case True
    have "key \<notin> fst ` set (cleanupMemoryStore now m)"
    proof
      assume "key \<in> fst ` set (cleanupMemoryStore now m)"
      then obtain r where r: "(key, r) \<in> set m" "\<not> now > resetAt r"
        by (auto simp: cleanupMemoryStore_filter [OF assms])
      with store_ok_same_key [OF assms mem r(1)] True show False by simp
    qed
    then have "map_of (cleanupMemoryStore now m) key = None"
      by (rule map_of_eq_None_iff [THEN iffD2])
    then show ?thesis
      using Some True by simp
  next
    case False
    have "(key, stored) \<in> set (cleanupMemoryStore now m)"
      using mem False by (simp add: cleanupMemoryStore_filter [OF assms])
    moreover have "distinct (map fst (cleanupMemoryStore now m))"
      using store_ok_cleanupMemoryStore [OF assms] by (simp add: store_ok_def)
    ultimately show ?thesis
      using Some False by simp
  qed
qed

text \<open>The result of a call depends on the map only through the record of its key.\<close>

lemma memory_path_result_cong:
  "map_of m key = map_of m' key \<Longrightarrow>
   fst (memory_path key lim now resetTime m) = fst (memory_path key lim now resetTime m')"
  by (simp add: memory_path_def Let_def split: option.splits)

lemma checkRateLimit_result_cong:
  assumes "map_of m (''ratelimit:'' @ identifier) = map_of (memoryStore w) (''ratelimit:'' @ identifier)"
  shows "fst (checkRateLimit redis identifier lim windowSeconds now (w \<lparr> memoryStore := m \<rparr>)) =
         fst (checkRateLimit redis identifier lim windowSeconds now w)"
  using memory_path_result_cong [OF assms]
  by (cases redis)
     (auto simp: checkRateLimit_None checkRateLimit_Some split: prod.splits sum.splits)

subsection \<open>Calls in one window\<close>

lemma map_upt_from_1:
  "map f [Suc 0..<Suc (Suc n)] = f (Suc 0) # map (\<lambda>i. f (Suc i)) [Suc 0..<Suc n]"
proof -
  have "[Suc 0..<Suc (Suc n)] = Suc 0 # map Suc [Suc 0..<Suc n]"
    by (simp add: map_Suc_upt upt_conv_Cons del: upt_Suc)
  then show ?thesis
    by (simp add: o_def del: upt_Suc)
qed

lemma local_first_call:
  assumes "fresh_local (''ratelimit:'' @ identifier) now (memoryStore w)"
  shows "checkRateLimit None identifier lim windowSeconds now w =
           (\<lparr> success = True, limit = lim, remaining = lim - 1, reset = now + windowSeconds * 1000 \<rparr>,
            w \<lparr> memoryStore := AList.update (''ratelimit:'' @ identifier)
                   \<lparr> count = 1, resetAt = now + windowSeconds * 1000 \<rparr> (memoryStore w) \<rparr>)"
  using assms
  by (auto simp: checkRateLimit_None fresh_local_def memory_path_new_window split: option.splits)

lemma local_next_call:
  assumes "map_of (memoryStore w) (''ratelimit:'' @ identifier) = Some r" and "\<not> now > resetAt r"
  shows "checkRateLimit None identifier lim windowSeconds now w =
           (\<lparr> success = count r + 1 \<le> lim, limit = lim,
               remaining = max 0 (lim - (count r + 1)), reset = resetAt r \<rparr>,
            w \<lparr> memoryStore := AList.update (''ratelimit:'' @ identifier)
                   (r \<lparr> count := count r + 1 \<rparr>) (memoryStore w) \<rparr>)"
  using assms by (simp add: checkRateLimit_None memory_path_same_window)

lemma calls_local_same_window:
  assumes "map_of (memoryStore w) (''ratelimit:'' @ identifier) = Some r"
      and "\<forall>t\<in>set ts. \<not> t > resetAt r"
  shows "fst (calls identifier lim windowSeconds (map (Pair None) ts) w) =
           map (\<lambda>i. \<lparr> success = count r + int i \<le> lim, limit = lim,
                       remaining = max 0 (lim - (count r + int i)), reset = resetAt r \<rparr>)
               [1..<Suc (length ts)]"
  using assms
proof (induction ts arbitrary: w r)
  case Nil
  show ?case by simp
next
  case (Cons t ts)
  let ?key = "''ratelimit:'' @ identifier"
  let ?r1 = "r \<lparr> count := count r + 1 \<rparr>"
  let ?w1 = "w \<lparr> memoryStore := AList.update ?key ?r1 (memoryStore w) \<rparr>"
  have step: "checkRateLimit None identifier lim windowSeconds t w =
                (\<lparr> success = count r + 1 \<le> lim, limit = lim,
                    remaining = max 0 (lim - (count r + 1)), reset = resetAt r \<rparr>, ?w1)"
    using Cons.prems by (intro local_next_call) simp_all
  have stored: "map_of (memoryStore ?w1) ?key = Some ?r1"
    by (simp add: update_conv')
  have later: "\<forall>t\<in>set ts. \<not> t > resetAt ?r1"
    using Cons.prems by simp
  have rest: "fst (calls identifier lim windowSeconds (map (Pair None) ts) ?w1) =
                map (\<lambda>i. \<lparr> success = count ?r1 + int i \<le> lim, limit = lim,
                            remaining = max 0 (lim - (count ?r1 + int i)), reset = resetAt ?r1 \<rparr>)
                    [1..<Suc (length ts)]"
    by (rule Cons.IH [OF stored later])
  have "fst (calls identifier lim windowSeconds (map (Pair None) (t # ts)) w) =
          \<lparr> success = count r + 1 \<le> lim, limit = lim,
            remaining = max 0 (lim - (count r + 1)), reset = resetAt r \<rparr>
          # fst (calls identifier lim windowSeconds (map (Pair None) ts) ?w1)"
    by (simp add: step split: prod.splits)
  also have "\<dots> = map (\<lambda>i. \<lparr> success = count r + int i \<le> lim, limit = lim,
                       remaining = max 0 (lim - (count r + int i)), reset = resetAt r \<rparr>)
               [1..<Suc (length (t # ts))]"
    unfolding rest by (simp add: map_upt_from_1 add.assoc del: upt_Suc)
  finally show ?case .
qed


lemma redis_try_ref_first:
  assumes "ref_live c rs key = None" and "0 < windowSeconds"
  shows "redis_try (ref_redis c) key lim windowSeconds now resetTime rs =
           (Inr \<lparr> success = 1 \<le> lim, limit = lim, remaining = max 0 (lim - 1),
                   reset = now + windowSeconds * 1000 \<rparr>,
            AList.update key (1, Some (c + windowSeconds * 1000)) rs)"
proof -
  let ?rs1 = "AList.update key (1, None) rs"
  let ?rs2 = "AList.update key (1, Some (c + windowSeconds * 1000)) rs"
  have i: "ref_incr c key rs = (Inr 1, ?rs1)"
    using assms(1) by (simp add: ref_incr_def)
  have e: "ref_expire c key windowSeconds ?rs1 = (Inr 1, ?rs2)"
    using assms(2) by (simp add: ref_expire_def ref_live_def update_conv')
  have "(c + windowSeconds * 1000 - c + 500) div 1000 = windowSeconds"
    by simp
  then have t: "ref_ttl c key ?rs2 = (Inr windowSeconds, ?rs2)"
    using assms(2) by (simp add: ref_ttl_def ref_live_def update_conv')
  show ?thesis
    using assms(2) by (simp add: redis_try_def ref_redis_def i e t)
qed

lemma redis_try_ref_next:
  assumes "map_of rs key = Some (v, Some e)" and "c < e" and "v \<noteq> 0"
  shows "redis_try (ref_redis c) key lim windowSeconds now resetTime rs =
           (Inr \<lparr> success = v + 1 \<le> lim, limit = lim, remaining = max 0 (lim - (v + 1)),
                   reset = (if 0 < (e - c + 500) div 1000 then now + (e - c + 500) div 1000 * 1000
                            else resetTime) \<rparr>,
            AList.update key (v + 1, Some e) rs)"
proof -
  let ?rs1 = "AList.update key (v + 1, Some e) rs"
  have i: "ref_incr c key rs = (Inr (v + 1), ?rs1)"
    using assms(1,2) by (simp add: ref_incr_def ref_live_def)
  have t: "ref_ttl c key ?rs1 = (Inr ((e - c + 500) div 1000), ?rs1)"
    using assms(2) by (simp add: ref_ttl_def ref_live_def update_conv')
  show ?thesis
    using assms(3) by (simp add: redis_try_def ref_redis_def i t)
qed

lemma ref_first_call:
  assumes "ref_live c (redis_state w) (''ratelimit:'' @ identifier) = None" and "0 < windowSeconds"
  shows "checkRateLimit (Some (ref_redis c)) identifier lim windowSeconds now w =
           (\<lparr> success = 1 \<le> lim, limit = lim, remaining = max 0 (lim - 1),
               reset = now + windowSeconds * 1000 \<rparr>,
            w \<lparr> redis_state := AList.update (''ratelimit:'' @ identifier)
                   (1, Some (c + windowSeconds * 1000)) (redis_state w) \<rparr>)"
  unfolding checkRateLimit_Some redis_try_ref_first [OF assms] by simp

lemma ref_next_call:
  assumes "map_of (redis_state w) (''ratelimit:'' @ identifier) = Some (v, Some e)"
      and "c < e" and "v \<noteq> 0"
  shows "checkRateLimit (Some (ref_redis c)) identifier lim windowSeconds now w =
           (\<lparr> success = v + 1 \<le> lim, limit = lim, remaining = max 0 (lim - (v + 1)),
               reset = (if 0 < (e - c + 500) div 1000 then now + (e - c + 500) div 1000 * 1000
                        else now + windowSeconds * 1000) \<rparr>,
            w \<lparr> redis_state := AList.update (''ratelimit:'' @ identifier) (v + 1, Some e)
                   (redis_state w) \<rparr>)"
  unfolding checkRateLimit_Some redis_try_ref_next [OF assms] by simp

lemma calls_ref_same_window:
  assumes "map_of (redis_state w) (''ratelimit:'' @ identifier) = Some (v, Some e)"
      and "\<forall>call\<in>set cs. fst call < e" and "0 < v"
  shows "map success (fst (calls identifier lim windowSeconds (map at_store cs) w)) =
           map (\<lambda>i. v + int i \<le> lim) [1..<Suc (length cs)]
         \<and> map remaining (fst (calls identifier lim windowSeconds (map at_store cs) w)) =
           map (\<lambda>i. max 0 (lim - (v + int i))) [1..<Suc (length cs)]"
  using assms
proof (induction cs arbitrary: w v)
  case Nil
  show ?case by simp
next
  case (Cons call cs)
  let ?key = "''ratelimit:'' @ identifier"
  let ?w1 = "w \<lparr> redis_state := AList.update ?key (v + 1, Some e) (redis_state w) \<rparr>"
  obtain c now where call: "call = (c, now)"
    by (cases call)
  have step: "checkRateLimit (Some (ref_redis c)) identifier lim windowSeconds now w =
           (\<lparr> success = v + 1 \<le> lim, limit = lim, remaining = max 0 (lim - (v + 1)),
               reset = (if 0 < (e - c + 500) div 1000 then now + (e - c + 500) div 1000 * 1000
                        else now + windowSeconds * 1000) \<rparr>, ?w1)"
    using Cons.prems call by (intro ref_next_call) simp_all
  have stored: "map_of (redis_state ?w1) ?key = Some (v + 1, Some e)"
    by (simp add: update_conv')
  have later: "\<forall>call\<in>set cs. fst call < e" and pos: "0 < v + 1"
    using Cons.prems by simp_all
  note rest = Cons.IH [OF stored later pos]
  have unfold: "fst (calls identifier lim windowSeconds (map at_store (call # cs)) w) =
          \<lparr> success = v + 1 \<le> lim, limit = lim, remaining = max 0 (lim - (v + 1)),
               reset = (if 0 < (e - c + 500) div 1000 then now + (e - c + 500) div 1000 * 1000
                        else now + windowSeconds * 1000) \<rparr>
          # fst (calls identifier lim windowSeconds (map at_store cs) ?w1)"
    by (simp add: call at_store_def step split: prod.splits)
  show ?case
    unfolding unfold using rest
    by (simp add: map_upt_from_1 add.assoc del: upt_Suc)
qed

lemma verdicts_up_to_limit:
  assumes "0 < L"
  shows "map (\<lambda>i. int i \<le> L) [Suc 0..<Suc (Suc (nat L))] = replicate (nat L) True @ [False]"
    and "map (\<lambda>i. max 0 (L - int i)) [Suc 0..<Suc (Suc (nat L))] =
           map (\<lambda>i. L - int i) [Suc 0..<Suc (nat L)] @ [0]"
proof -
  have split: "[Suc 0..<Suc (Suc (nat L))] = [Suc 0..<Suc (nat L)] @ [Suc (nat L)]"
    by simp
  have "map (\<lambda>i. int i \<le> L) [Suc 0..<Suc (nat L)] = map (\<lambda>i. True) [Suc 0..<Suc (nat L)]"
    by (rule map_cong) auto
  also have "\<dots> = replicate (nat L) True"
    by (simp add: map_replicate_const del: upt_Suc)
  finally have pass: "map (\<lambda>i. int i \<le> L) [Suc 0..<Suc (nat L)] = replicate (nat L) True" .
  have left: "map (\<lambda>i. max 0 (L - int i)) [Suc 0..<Suc (nat L)] =
                map (\<lambda>i. L - int i) [Suc 0..<Suc (nat L)]"
    by (rule map_cong) auto
  show "map (\<lambda>i. int i \<le> L) [Suc 0..<Suc (Suc (nat L))] = replicate (nat L) True @ [False]"
    unfolding split using assms pass by (simp del: upt_Suc)
  show "map (\<lambda>i. max 0 (L - int i)) [Suc 0..<Suc (Suc (nat L))] =
           map (\<lambda>i. L - int i) [Suc 0..<Suc (nat L)] @ [0]"
    unfolding split using assms left by (simp del: upt_Suc)
qed

lemma calls_local_fresh:
  assumes "fresh_local (''ratelimit:'' @ identifier) t (memoryStore w)"
      and "\<forall>t'\<in>set ts. \<not> t' > t + windowSeconds * 1000" and "0 < lim"
  shows "map success (fst (calls identifier lim windowSeconds (map (Pair None) (t # ts)) w)) =
           map (\<lambda>i. int i \<le> lim) [Suc 0..<Suc (Suc (length ts))]"
    and "map remaining (fst (calls identifier lim windowSeconds (map (Pair None) (t # ts)) w)) =
           map (\<lambda>i. max 0 (lim - int i)) [Suc 0..<Suc (Suc (length ts))]"
proof -
  let ?key = "''ratelimit:'' @ identifier"
  let ?r1 = "\<lparr> count = 1, resetAt = t + windowSeconds * 1000 \<rparr>"
  let ?w1 = "w \<lparr> memoryStore := AList.update ?key ?r1 (memoryStore w) \<rparr>"
  have stored: "map_of (memoryStore ?w1) ?key = Some ?r1"
    by (simp add: update_conv')
  have later: "\<forall>t'\<in>set ts. \<not> t' > resetAt ?r1"
    using assms(2) by simp
  note rest = calls_local_same_window [OF stored later, of lim windowSeconds]
  have unfold: "fst (calls identifier lim windowSeconds (map (Pair None) (t # ts)) w) =
          \<lparr> success = True, limit = lim, remaining = lim - 1, reset = t + windowSeconds * 1000 \<rparr>
          # fst (calls identifier lim windowSeconds (map (Pair None) ts) ?w1)"
    by (simp add: local_first_call [OF assms(1)] split: prod.splits)
  show "map success (fst (calls identifier lim windowSeconds (map (Pair None) (t # ts)) w)) =
           map (\<lambda>i. int i \<le> lim) [Suc 0..<Suc (Suc (length ts))]"
    unfolding unfold rest using assms(3)
    by (simp add: map_upt_from_1 o_def del: upt_Suc)
  show "map remaining (fst (calls identifier lim windowSeconds (map (Pair None) (t # ts)) w)) =
           map (\<lambda>i. max 0 (lim - int i)) [Suc 0..<Suc (Suc (length ts))]"
    unfolding unfold rest using assms(3)
    by (simp add: map_upt_from_1 o_def del: upt_Suc)
qed


lemma calls_ref_fresh:
  assumes "ref_live (fst call) (redis_state w) (''ratelimit:'' @ identifier) = None"
      and "0 < windowSeconds"
      and "\<forall>call'\<in>set cs. fst call' < fst call + windowSeconds * 1000" and "0 < lim"
  shows "map success (fst (calls identifier lim windowSeconds (map at_store (call # cs)) w)) =
           map (\<lambda>i. int i \<le> lim) [Suc 0..<Suc (Suc (length cs))]"
    and "map remaining (fst (calls identifier lim windowSeconds (map at_store (call # cs)) w)) =
           map (\<lambda>i. max 0 (lim - int i)) [Suc 0..<Suc (Suc (length cs))]"
proof -
  let ?key = "''ratelimit:'' @ identifier"
  let ?e = "fst call + windowSeconds * 1000"
  let ?w1 = "w \<lparr> redis_state := AList.update ?key (1, Some ?e) (redis_state w) \<rparr>"
  have stored: "map_of (redis_state ?w1) ?key = Some (1, Some ?e)"
    by (simp add: update_conv')
  have later: "\<forall>call'\<in>set cs. fst call' < ?e"
    using assms(3) by simp
  have rest:
    "map success (fst (calls identifier lim windowSeconds (map at_store cs) ?w1)) =
       map (\<lambda>i. 1 + int i \<le> lim) [1..<Suc (length cs)]"
    "map remaining (fst (calls identifier lim windowSeconds (map at_store cs) ?w1)) =
       map (\<lambda>i. max 0 (lim - (1 + int i))) [1..<Suc (length cs)]"
    using calls_ref_same_window [OF stored later, of lim windowSeconds] by simp_all
  have unfold: "fst (calls identifier lim windowSeconds (map at_store (call # cs)) w) =
          \<lparr> success = 1 \<le> lim, limit = lim, remaining = max 0 (lim - 1),
            reset = snd call + windowSeconds * 1000 \<rparr>
          # fst (calls identifier lim windowSeconds (map at_store cs) ?w1)"
    by (simp add: at_store_def ref_first_call [OF assms(1,2)] split: prod.splits)
  show "map success (fst (calls identifier lim windowSeconds (map at_store (call # cs)) w)) =
           map (\<lambda>i. int i \<le> lim) [Suc 0..<Suc (Suc (length cs))]"
    unfolding unfold using rest(1)
    by (simp add: map_upt_from_1 del: upt_Suc)
  show "map remaining (fst (calls identifier lim windowSeconds (map at_store (call # cs)) w)) =
           map (\<lambda>i. max 0 (lim - int i)) [Suc 0..<Suc (Suc (length cs))]"
    unfolding unfold using rest(2)
    by (simp add: map_upt_from_1 del: upt_Suc)
qed







subsection \<open>What a call stores\<close>

lemma memory_path_store:
  "snd (memory_path key lim now resetTime m) =
     AList.update key (next_record now resetTime (map_of m key)) m"
  by (simp add: memory_path_def next_record_def Let_def split: option.splits)

lemma memory_path_stored:
  "map_of (snd (memory_path key lim now resetTime m)) key' =
     (if key' = key then Some (next_record now resetTime (map_of m key)) else map_of m key')"
  by (simp add: memory_path_store update_conv')

lemma checkRateLimit_None_store:
  "memoryStore (snd (checkRateLimit None identifier lim windowSeconds now w)) =
     AList.update (''ratelimit:'' @ identifier)
       (next_record now (now + windowSeconds * 1000)
          (map_of (memoryStore w) (''ratelimit:'' @ identifier))) (memoryStore w)"
  by (simp add: checkRateLimit_None memory_path_store)

lemma ref_ttl_replies: "\<exists>t. ref_ttl c key m = (Inr t, m)"
  by (auto simp: ref_ttl_def split: option.splits prod.splits)

lemma redis_try_ref_result:
  assumes "0 < windowSeconds"
  shows "\<exists>result. redis_try (ref_redis c) key lim windowSeconds now resetTime rs =
           (Inr result, AList.update key (ref_next_value c windowSeconds (ref_live c rs key)) rs)"
proof (cases "ref_live c rs key")
  case None
  then show ?thesis
    using redis_try_ref_first [OF None assms] by (simp add: ref_next_value_def)
next
  case (Some live)
  obtain v ex where live: "live = (v, ex)"
    by (cases live)
  show ?thesis
  proof (cases "v = 0")
    case True
    let ?rs1 = "AList.update key (1, ex) rs"
    let ?rs2 = "AList.update key (1, Some (c + windowSeconds * 1000)) rs"
    have i: "ref_incr c key rs = (Inr 1, ?rs1)"
      using Some live True by (simp add: ref_incr_def)
    have alive: "ref_live c ?rs1 key = Some (1, ex)"
      using Some live True by (auto simp: ref_live_def update_conv' split: option.splits if_splits)
    have e: "ref_expire c key windowSeconds ?rs1 = (Inr 1, ?rs2)"
      using alive assms by (simp add: ref_expire_def)
    obtain t where t: "ref_ttl c key ?rs2 = (Inr t, ?rs2)"
      using ref_ttl_replies by blast
    have "redis_try (ref_redis c) key lim windowSeconds now resetTime rs =
            (Inr \<lparr> success = 1 \<le> lim, limit = lim, remaining = max 0 (lim - 1),
                    reset = (if t > 0 then now + t * 1000 else resetTime) \<rparr>, ?rs2)"
      by (simp add: redis_try_def ref_redis_def i e t)
    then show ?thesis
      using True Some live by (simp add: ref_next_value_def)
  next
    case False
    let ?rs1 = "AList.update key (v + 1, ex) rs"
    have i: "ref_incr c key rs = (Inr (v + 1), ?rs1)"
      using Some live by (simp add: ref_incr_def)
    obtain t where t: "ref_ttl c key ?rs1 = (Inr t, ?rs1)"
      using ref_ttl_replies by blast
    have "redis_try (ref_redis c) key lim windowSeconds now resetTime rs =
            (Inr \<lparr> success = v + 1 \<le> lim, limit = lim, remaining = max 0 (lim - (v + 1)),
                    reset = (if t > 0 then now + t * 1000 else resetTime) \<rparr>, ?rs1)"
      using False by (simp add: redis_try_def ref_redis_def i t)
    then show ?thesis
      using False Some live by (simp add: ref_next_value_def)
  qed
qed

lemma checkRateLimit_ref_store:
  assumes "0 < windowSeconds"
  shows "snd (checkRateLimit (Some (ref_redis c)) identifier lim windowSeconds now w) =
           w \<lparr> redis_state := AList.update (''ratelimit:'' @ identifier)
                 (ref_next_value c windowSeconds (ref_live c (redis_state w) (''ratelimit:'' @ identifier)))
                 (redis_state w) \<rparr>"
proof -
  obtain result where "redis_try (ref_redis c) (''ratelimit:'' @ identifier) lim windowSeconds now
      (now + windowSeconds * 1000) (redis_state w) =
      (Inr result, AList.update (''ratelimit:'' @ identifier)
         (ref_next_value c windowSeconds (ref_live c (redis_state w) (''ratelimit:'' @ identifier)))
         (redis_state w))"
    using redis_try_ref_result [OF assms] by blast
  then show ?thesis
    unfolding checkRateLimit_Some by simp
qed

lemma ref_live_update_other:
  "key' \<noteq> key \<Longrightarrow> ref_live c (AList.update key x rs) key' = ref_live c rs key'"
  by (simp add: ref_live_def update_conv')

subsection \<open>Limits of zero and below\<close>

lemma redis_try_remaining:
  assumes "redis_try client key lim windowSeconds now resetTime rs = (Inr result, rs')"
  shows "0 \<le> remaining result"
  using assms
  by (auto simp: redis_try_def split: prod.splits sum.splits if_splits)

lemma memory_path_remaining:
  assumes "1 \<le> lim"
  shows "0 \<le> remaining (fst (memory_path key lim now resetTime m))"
  using assms by (simp add: memory_path_def Let_def split: option.splits)

lemma remaining_not_negative_for_positive_limit:
  assumes "1 \<le> lim"
  shows "0 \<le> remaining (fst (checkRateLimit redis identifier lim windowSeconds now w))"
proof (cases redis)
  case None
  then show ?thesis
    using memory_path_remaining [OF assms] by (simp add: checkRateLimit_None)
next
  case (Some client)
  obtain res rs' where r: "redis_try client (''ratelimit:'' @ identifier) lim windowSeconds now
             (now + windowSeconds * 1000) (redis_state w) = (res, rs')"
    by (cases "redis_try client (''ratelimit:'' @ identifier) lim windowSeconds now
             (now + windowSeconds * 1000) (redis_state w)")
  show ?thesis
  proof (cases res)
    case (Inl e)
    then show ?thesis
      using memory_path_remaining [OF assms] r Some by (simp add: checkRateLimit_Some)
  next
    case (Inr result)
    then show ?thesis
      using redis_try_remaining [OF r [unfolded Inr]] r Some by (simp add: checkRateLimit_Some)
  qed
qed

lemma zero_limit_denied_within_window:
  assumes "map_of (memoryStore w) (''ratelimit:'' @ identifier) = Some r"
      and "\<not> now > resetAt r" and "0 \<le> count r"
  shows "\<not> success (fst (checkRateLimit None identifier 0 windowSeconds now w))"
  using assms by (simp add: local_next_call)

lemma zero_limit_denied_on_store:
  assumes "0 < windowSeconds" and "ref_live c (redis_state w) (''ratelimit:'' @ identifier) = None"
  shows "\<not> success (fst (checkRateLimit (Some (ref_redis c)) identifier 0 windowSeconds now w))"
  using assms by (simp add: ref_first_call)

section \<open>Claims\<close>

text \<open>
  C5. When the stored \<^verbatim>\<open>resetAt\<close> of a key lies before the time of the call, the call on
  the in-memory path starts a new window: the result has \<open>success = True\<close>,
  \<open>remaining = limit - 1\<close> and \<open>reset = now + windowSeconds * 1000\<close>, and the stored
  record becomes count 1 with that reset time.
\<close>

theorem C5_expired_record_starts_new_window:
  assumes "map_of (memoryStore w) (''ratelimit:'' @ identifier) = Some record"
      and "resetAt record < now"
      and "uses_memory redis identifier lim windowSeconds now w"
  shows "fst (checkRateLimit redis identifier lim windowSeconds now w) =
           \<lparr> success = True, limit = lim, remaining = lim - 1,
             reset = now + windowSeconds * 1000 \<rparr>
         \<and> map_of (memoryStore (snd (checkRateLimit redis identifier lim windowSeconds now w)))
             (''ratelimit:'' @ identifier) =
           Some \<lparr> count = 1, resetAt = now + windowSeconds * 1000 \<rparr>"
  using assms(1,2) checkRateLimit_uses_memory [OF assms(3)]
  by (simp add: memory_path_new_window update_conv')

theorem C5_expired_record_starts_new_window_witness:
  "map_of (memoryStore \<lparr> redis_state = (), memoryStore = [(''ratelimit:ip:1.2.3.4'', \<lparr> count = 7, resetAt = 61000 \<rparr>)] \<rparr>)
      (''ratelimit:'' @ ''ip:1.2.3.4'') = Some \<lparr> count = 7, resetAt = 61000 \<rparr>
   \<and> resetAt \<lparr> count = 7, resetAt = 61000 \<rparr> < 61001
   \<and> uses_memory None ''ip:1.2.3.4'' 3 60 61001
        \<lparr> redis_state = (), memoryStore = [(''ratelimit:ip:1.2.3.4'', \<lparr> count = 7, resetAt = 61000 \<rparr>)] \<rparr>
   \<and> fst (checkRateLimit None ''ip:1.2.3.4'' 3 60 61001
        \<lparr> redis_state = (), memoryStore = [(''ratelimit:ip:1.2.3.4'', \<lparr> count = 7, resetAt = 61000 \<rparr>)] \<rparr>) =
       \<lparr> success = True, limit = 3, remaining = 2, reset = 121001 \<rparr>
   \<and> map_of (memoryStore (snd (checkRateLimit None ''ip:1.2.3.4'' 3 60 61001
        \<lparr> redis_state = (), memoryStore = [(''ratelimit:ip:1.2.3.4'', \<lparr> count = 7, resetAt = 61000 \<rparr>)] \<rparr>)))
        (''ratelimit:'' @ ''ip:1.2.3.4'') = Some \<lparr> count = 1, resetAt = 121001 \<rparr>"
  using C5_expired_record_starts_new_window [of "\<lparr> redis_state = (), memoryStore = [(''ratelimit:ip:1.2.3.4'', \<lparr> count = 7, resetAt = 61000 \<rparr>)] \<rparr>"
      "''ip:1.2.3.4''" "\<lparr> count = 7, resetAt = 61000 \<rparr>" 61001 None 3 60]
  by (simp add: uses_memory_def)

text \<open>
  C6. When a constituent result of \<^verbatim>\<open>rateLimitCombined\<close> has \<open>success = False\<close>, the
  combined result is the first failing constituent result in listed order, the address
  before the e-mail, equal to it in every field, also when the later one fails too.
\<close>

theorem C6_first_failing_result_returned:
  assumes "rateLimitByIP redis req ipLimit windowSeconds nowIP w = (ipResult, w1)"
      and "rateLimitByEmail redis email emailLimit windowSeconds nowEmail w1 = (emailResult, w2)"
      and "\<not> success ipResult \<or> \<not> success emailResult"
  shows "fst (rateLimitCombined redis req email ipLimit emailLimit windowSeconds nowIP nowEmail w) =
           (if \<not> success ipResult then ipResult else emailResult)"
  using assms by (auto simp: rateLimitCombined_def)

theorem C6_first_failing_result_returned_witness:
  "fst (rateLimitCombined None (map_of [(''x-forwarded-for'', ''5.6.7.8, 9.9.9.9'')]) ''a@b.c'' 10 3 60 1000 1001
         \<lparr> redis_state = (),
           memoryStore = [(''ratelimit:ip:5.6.7.8'', \<lparr> count = 10, resetAt = 50000 \<rparr>),
                          (''ratelimit:email:a@b.c'', \<lparr> count = 3, resetAt = 40000 \<rparr>)] \<rparr>) =
     \<lparr> success = False, limit = 10, remaining = 0, reset = 50000 \<rparr>"
proof -
  let ?w = "\<lparr> redis_state = (),
           memoryStore = [(''ratelimit:ip:5.6.7.8'', \<lparr> count = 10, resetAt = 50000 \<rparr>),
                          (''ratelimit:email:a@b.c'', \<lparr> count = 3, resetAt = 40000 \<rparr>)] \<rparr>"
  let ?w1 = "\<lparr> redis_state = (),
           memoryStore = [(''ratelimit:ip:5.6.7.8'', \<lparr> count = 11, resetAt = 50000 \<rparr>),
                          (''ratelimit:email:a@b.c'', \<lparr> count = 3, resetAt = 40000 \<rparr>)] \<rparr>"
  let ?w2 = "\<lparr> redis_state = (),
           memoryStore = [(''ratelimit:ip:5.6.7.8'', \<lparr> count = 11, resetAt = 50000 \<rparr>),
                          (''ratelimit:email:a@b.c'', \<lparr> count = 4, resetAt = 40000 \<rparr>)] \<rparr>"
  have ip: "rateLimitByIP None (map_of [(''x-forwarded-for'', ''5.6.7.8, 9.9.9.9'')]) 10 60 1000 ?w =
              (\<lparr> success = False, limit = 10, remaining = 0, reset = 50000 \<rparr>, ?w1)"
    by code_simp
  have em: "rateLimitByEmail None ''a@b.c'' 3 60 1001 ?w1 =
              (\<lparr> success = False, limit = 3, remaining = 0, reset = 40000 \<rparr>, ?w2)"
    by code_simp
  show ?thesis
    using C6_first_failing_result_returned [OF ip em] by simp
qed

text \<open>
  C7. When both constituent results of \<^verbatim>\<open>rateLimitCombined\<close> have \<open>success = True\<close>,
  the combined result has \<open>success = True\<close>, the smaller of the two limits, the smaller of
  the two \<open>remaining\<close> values and the later of the two reset times.
\<close>

theorem C7_all_pass_most_restrictive:
  assumes "rateLimitByIP redis req ipLimit windowSeconds nowIP w = (ipResult, w1)"
      and "rateLimitByEmail redis email emailLimit windowSeconds nowEmail w1 = (emailResult, w2)"
      and "success ipResult" and "success emailResult"
  shows "fst (rateLimitCombined redis req email ipLimit emailLimit windowSeconds nowIP nowEmail w) =
           \<lparr> success = True,
             limit = min (limit ipResult) (limit emailResult),
             remaining = min (remaining ipResult) (remaining emailResult),
             reset = max (reset ipResult) (reset emailResult) \<rparr>"
  using assms by (simp add: rateLimitCombined_def)

theorem C7_all_pass_most_restrictive_witness:
  "fst (rateLimitCombined None (map_of [(''x-real-ip'', ''5.6.7.8'')]) ''a@b.c'' 10 3 60 1000 1001
         \<lparr> redis_state = (),
           memoryStore = [(''ratelimit:ip:5.6.7.8'', \<lparr> count = 4, resetAt = 50000 \<rparr>)] \<rparr>) =
     \<lparr> success = True, limit = 3, remaining = 2, reset = 61001 \<rparr>"
proof -
  let ?w = "\<lparr> redis_state = (),
           memoryStore = [(''ratelimit:ip:5.6.7.8'', \<lparr> count = 4, resetAt = 50000 \<rparr>)] \<rparr>"
  let ?w1 = "\<lparr> redis_state = (),
           memoryStore = [(''ratelimit:ip:5.6.7.8'', \<lparr> count = 5, resetAt = 50000 \<rparr>)] \<rparr>"
  let ?w2 = "\<lparr> redis_state = (),
           memoryStore = [(''ratelimit:ip:5.6.7.8'', \<lparr> count = 5, resetAt = 50000 \<rparr>),
                          (''ratelimit:email:a@b.c'', \<lparr> count = 1, resetAt = 61001 \<rparr>)] \<rparr>"
  have ip: "rateLimitByIP None (map_of [(''x-real-ip'', ''5.6.7.8'')]) 10 60 1000 ?w =
              (\<lparr> success = True, limit = 10, remaining = 5, reset = 50000 \<rparr>, ?w1)"
    by code_simp
  have em: "rateLimitByEmail None ''a@b.c'' 3 60 1001 ?w1 =
              (\<lparr> success = True, limit = 3, remaining = 2, reset = 61001 \<rparr>, ?w2)"
    by code_simp
  show ?thesis
    using C7_all_pass_most_restrictive [OF ip em] by simp
qed

text \<open>
  C8. When an operation of the client throws, at whichever step of the sequence
  \<^verbatim>\<open>incr\<close>, \<^verbatim>\<open>expire\<close>, \<^verbatim>\<open>ttl\<close>, the error is caught and the call is completed on
  the in-memory path: its result and its effect on \<^verbatim>\<open>memoryStore\<close> are those of
  \<^const>\<open>memory_path\<close>. The caller receives a result and no error: \<^const>\<open>checkRateLimit\<close>
  has no error value, because every \<open>Inl\<close> of \<^const>\<open>redis_try\<close> is consumed by the
  \<^verbatim>\<open>catch\<close> clause and nothing after it can throw.
\<close>

theorem C8_store_error_falls_back:
  assumes "(\<exists>e rs1. incr client (''ratelimit:'' @ identifier) (redis_state w) = (Inl e, rs1))
         \<or> (\<exists>rs1 e rs2. incr client (''ratelimit:'' @ identifier) (redis_state w) = (Inr 1, rs1)
               \<and> expire client (''ratelimit:'' @ identifier) windowSeconds rs1 = (Inl e, rs2))
         \<or> (\<exists>rs1 n rs2 e rs3. incr client (''ratelimit:'' @ identifier) (redis_state w) = (Inr 1, rs1)
               \<and> expire client (''ratelimit:'' @ identifier) windowSeconds rs1 = (Inr n, rs2)
               \<and> ttl client (''ratelimit:'' @ identifier) rs2 = (Inl e, rs3))
         \<or> (\<exists>cnt rs1 e rs3. cnt \<noteq> 1
               \<and> incr client (''ratelimit:'' @ identifier) (redis_state w) = (Inr cnt, rs1)
               \<and> ttl client (''ratelimit:'' @ identifier) rs1 = (Inl e, rs3))"
  shows "fst (checkRateLimit (Some client) identifier lim windowSeconds now w) =
           fst (memory_path (''ratelimit:'' @ identifier) lim now (now + windowSeconds * 1000)
                  (memoryStore w))
         \<and> memoryStore (snd (checkRateLimit (Some client) identifier lim windowSeconds now w)) =
           snd (memory_path (''ratelimit:'' @ identifier) lim now (now + windowSeconds * 1000)
                  (memoryStore w))"
proof -
  have "isl (fst (redis_try client (''ratelimit:'' @ identifier) lim windowSeconds now
                    (now + windowSeconds * 1000) (redis_state w)))"
    using assms by (auto simp: redis_try_def)
  then have "uses_memory (Some client) identifier lim windowSeconds now w"
    by (simp add: uses_memory_def)
  then show ?thesis
    by (simp add: checkRateLimit_uses_memory)
qed

theorem C8_store_error_falls_back_witness:
  "fst (checkRateLimit
          (Some ((ref_redis 1000) \<lparr> incr := (\<lambda>key m. (Inl (RedisError ''timeout''), m)) \<rparr>))
          ''ip:1.2.3.4'' 3 60 1000 \<lparr> redis_state = [], memoryStore = [] \<rparr>) =
     \<lparr> success = True, limit = 3, remaining = 2, reset = 61000 \<rparr>
   \<and> fst (checkRateLimit
          (Some ((ref_redis 1000) \<lparr> expire := (\<lambda>key seconds m. (Inl (RedisError ''timeout''), m)) \<rparr>))
          ''ip:1.2.3.4'' 3 60 1000 \<lparr> redis_state = [], memoryStore = [] \<rparr>) =
     \<lparr> success = True, limit = 3, remaining = 2, reset = 61000 \<rparr>
   \<and> fst (checkRateLimit
          (Some ((ref_redis 1000) \<lparr> ttl := (\<lambda>key m. (Inl (RedisError ''timeout''), m)) \<rparr>))
          ''ip:1.2.3.4'' 3 60 1000 \<lparr> redis_state = [], memoryStore = [] \<rparr>) =
     \<lparr> success = True, limit = 3, remaining = 2, reset = 61000 \<rparr>"
  using
    C8_store_error_falls_back
      [of "(ref_redis 1000) \<lparr> incr := (\<lambda>key m. (Inl (RedisError ''timeout''), m)) \<rparr>"
          "''ip:1.2.3.4''" "\<lparr> redis_state = [], memoryStore = [] \<rparr>" 60 3 1000]
    C8_store_error_falls_back
      [of "(ref_redis 1000) \<lparr> expire := (\<lambda>key seconds m. (Inl (RedisError ''timeout''), m)) \<rparr>"
          "''ip:1.2.3.4''" "\<lparr> redis_state = [], memoryStore = [] \<rparr>" 60 3 1000]
    C8_store_error_falls_back
      [of "(ref_redis 1000) \<lparr> ttl := (\<lambda>key m. (Inl (RedisError ''timeout''), m)) \<rparr>"
          "''ip:1.2.3.4''" "\<lparr> redis_state = [], memoryStore = [] \<rparr>" 60 3 1000]
  by (simp add: ref_redis_def ref_incr_def ref_expire_def ref_ttl_def ref_live_def memory_path_def)

text \<open>
  C9. A run of \<^verbatim>\<open>cleanupMemoryStore\<close> at any time removes from the map exactly the
  entries whose \<^verbatim>\<open>resetAt\<close> is before the time of the sweep and keeps the others as
  they are, in their order; so a key whose record has not expired keeps its record, and
  the result of the next call for that key is the same with and without the sweep.
\<close>

theorem C9_sweep_removes_exactly_expired:
  assumes "store_ok (memoryStore w)"
  shows "cleanupMemoryStore sweepTime (memoryStore w) =
           filter (\<lambda>(key, record). \<not> sweepTime > resetAt record) (memoryStore w)
         \<and> (map_of (memoryStore w) (''ratelimit:'' @ identifier) = Some record
              \<and> \<not> sweepTime > resetAt record \<longrightarrow>
            map_of (cleanupMemoryStore sweepTime (memoryStore w)) (''ratelimit:'' @ identifier) =
              Some record
            \<and> fst (checkRateLimit redis identifier lim windowSeconds now
                     (w \<lparr> memoryStore := cleanupMemoryStore sweepTime (memoryStore w) \<rparr>)) =
              fst (checkRateLimit redis identifier lim windowSeconds now w))"
proof (intro conjI impI)
  show "cleanupMemoryStore sweepTime (memoryStore w) =
          filter (\<lambda>(key, record). \<not> sweepTime > resetAt record) (memoryStore w)"
    by (rule cleanupMemoryStore_filter [OF assms])
next
  assume a: "map_of (memoryStore w) (''ratelimit:'' @ identifier) = Some record
             \<and> \<not> sweepTime > resetAt record"
  then show kept: "map_of (cleanupMemoryStore sweepTime (memoryStore w)) (''ratelimit:'' @ identifier) =
              Some record"
    by (simp add: map_of_cleanupMemoryStore [OF assms])
  with a show "fst (checkRateLimit redis identifier lim windowSeconds now
                     (w \<lparr> memoryStore := cleanupMemoryStore sweepTime (memoryStore w) \<rparr>)) =
              fst (checkRateLimit redis identifier lim windowSeconds now w)"
    by (intro checkRateLimit_result_cong) simp
qed

theorem C9_sweep_removes_exactly_expired_witness:
  "cleanupMemoryStore 100
     [(''ratelimit:ip:a'', \<lparr> count = 1, resetAt = 50 \<rparr>),
      (''ratelimit:ip:b'', \<lparr> count = 2, resetAt = 100 \<rparr>),
      (''ratelimit:ip:c'', \<lparr> count = 5, resetAt = 99 \<rparr>),
      (''ratelimit:ip:d'', \<lparr> count = 9, resetAt = 101 \<rparr>)] =
     [(''ratelimit:ip:b'', \<lparr> count = 2, resetAt = 100 \<rparr>),
      (''ratelimit:ip:d'', \<lparr> count = 9, resetAt = 101 \<rparr>)]
   \<and> fst (checkRateLimit None ''ip:d'' 3 60 100
        \<lparr> redis_state = (), memoryStore = cleanupMemoryStore 100
          [(''ratelimit:ip:a'', \<lparr> count = 1, resetAt = 50 \<rparr>),
           (''ratelimit:ip:b'', \<lparr> count = 2, resetAt = 100 \<rparr>),
           (''ratelimit:ip:c'', \<lparr> count = 5, resetAt = 99 \<rparr>),
           (''ratelimit:ip:d'', \<lparr> count = 9, resetAt = 101 \<rparr>)] \<rparr>) =
     \<lparr> success = False, limit = 3, remaining = 0, reset = 101 \<rparr>"
  using C9_sweep_removes_exactly_expired
    [of "\<lparr> redis_state = (), memoryStore =
          [(''ratelimit:ip:a'', \<lparr> count = 1, resetAt = 50 \<rparr>),
           (''ratelimit:ip:b'', \<lparr> count = 2, resetAt = 100 \<rparr>),
           (''ratelimit:ip:c'', \<lparr> count = 5, resetAt = 99 \<rparr>),
           (''ratelimit:ip:d'', \<lparr> count = 9, resetAt = 101 \<rparr>)] \<rparr>"
        100 "''ip:d''" "\<lparr> count = 9, resetAt = 101 \<rparr>" None 3 60 100]
  by (simp add: store_ok_def checkRateLimit_None memory_path_def)

text \<open>
  C1. For a fresh key, a limit \<open>L > 0\<close> and calls that all fall into the window the first one
  opens, the first \<open>L\<close> calls return \<open>success = True\<close> and call \<open>L + 1\<close> returns
  \<open>success = False\<close>, with \<open>remaining\<close> counting down from \<open>L - 1\<close> to 0 and staying
  there. This holds on the in-memory path and, for a window \<open>W > 0\<close>, on the store; for
  limit 3 the four results have \<open>success = [True, True, True, False]\<close> and
  \<open>remaining = [2, 1, 0, 0]\<close>.
\<close>

theorem C1_first_L_calls_pass_next_fails:
  assumes "0 < lim"
  shows "(fresh_local (''ratelimit:'' @ identifier) t (memoryStore w)
            \<and> length ts = nat lim
            \<and> (\<forall>t'\<in>set ts. \<not> t' > t + windowSeconds * 1000) \<longrightarrow>
          map success (fst (calls identifier lim windowSeconds (map (Pair None) (t # ts)) w)) =
            replicate (nat lim) True @ [False]
          \<and> map remaining (fst (calls identifier lim windowSeconds (map (Pair None) (t # ts)) w)) =
            map (\<lambda>i. lim - int i) [1..<Suc (nat lim)] @ [0])
       \<and> (0 < windowSeconds
            \<and> ref_live (fst call) (redis_state v) (''ratelimit:'' @ identifier) = None
            \<and> length cs = nat lim
            \<and> (\<forall>call'\<in>set cs. fst call' < fst call + windowSeconds * 1000) \<longrightarrow>
          map success (fst (calls identifier lim windowSeconds (map at_store (call # cs)) v)) =
            replicate (nat lim) True @ [False]
          \<and> map remaining (fst (calls identifier lim windowSeconds (map at_store (call # cs)) v)) =
            map (\<lambda>i. lim - int i) [1..<Suc (nat lim)] @ [0])"
proof (intro conjI impI)
  assume a: "fresh_local (''ratelimit:'' @ identifier) t (memoryStore w)
            \<and> length ts = nat lim
            \<and> (\<forall>t'\<in>set ts. \<not> t' > t + windowSeconds * 1000)"
  then have f: "fresh_local (''ratelimit:'' @ identifier) t (memoryStore w)"
    and n: "length ts = nat lim"
    and b: "\<forall>t'\<in>set ts. \<not> t' > t + windowSeconds * 1000"
    by simp_all
  show "map success (fst (calls identifier lim windowSeconds (map (Pair None) (t # ts)) w)) =
            replicate (nat lim) True @ [False]"
    using calls_local_fresh(1) [OF f b assms] verdicts_up_to_limit(1) [OF assms] n by simp
  show "map remaining (fst (calls identifier lim windowSeconds (map (Pair None) (t # ts)) w)) =
            map (\<lambda>i. lim - int i) [1..<Suc (nat lim)] @ [0]"
    using calls_local_fresh(2) [OF f b assms] verdicts_up_to_limit(2) [OF assms] n by simp
next
  assume a: "0 < windowSeconds
            \<and> ref_live (fst call) (redis_state v) (''ratelimit:'' @ identifier) = None
            \<and> length cs = nat lim
            \<and> (\<forall>call'\<in>set cs. fst call' < fst call + windowSeconds * 1000)"
  then have p: "0 < windowSeconds"
    and f: "ref_live (fst call) (redis_state v) (''ratelimit:'' @ identifier) = None"
    and n: "length cs = nat lim"
    and b: "\<forall>call'\<in>set cs. fst call' < fst call + windowSeconds * 1000"
    by simp_all
  show "map success (fst (calls identifier lim windowSeconds (map at_store (call # cs)) v)) =
            replicate (nat lim) True @ [False]"
    using calls_ref_fresh(1) [OF f p b assms] verdicts_up_to_limit(1) [OF assms] n by simp
  show "map remaining (fst (calls identifier lim windowSeconds (map at_store (call # cs)) v)) =
            map (\<lambda>i. lim - int i) [1..<Suc (nat lim)] @ [0]"
    using calls_ref_fresh(2) [OF f p b assms] verdicts_up_to_limit(2) [OF assms] n by simp
qed

theorem C1_first_L_calls_pass_next_fails_witness:
  "map success (fst (calls ''ip:1.2.3.4'' 3 60 (map (Pair None) [1000, 2000, 3000, 61000])
                  \<lparr> redis_state = (), memoryStore = [] \<rparr>)) = [True, True, True, False]
   \<and> map remaining (fst (calls ''ip:1.2.3.4'' 3 60 (map (Pair None) [1000, 2000, 3000, 61000])
                  \<lparr> redis_state = (), memoryStore = [] \<rparr>)) = [2, 1, 0, 0]
   \<and> map success (fst (calls ''ip:1.2.3.4'' 3 60
                  (map at_store [(5000, 1000), (6000, 2000), (7000, 3000), (64999, 61000)])
                  \<lparr> redis_state = [], memoryStore = [] \<rparr>)) = [True, True, True, False]
   \<and> map remaining (fst (calls ''ip:1.2.3.4'' 3 60
                  (map at_store [(5000, 1000), (6000, 2000), (7000, 3000), (64999, 61000)])
                  \<lparr> redis_state = [], memoryStore = [] \<rparr>)) = [2, 1, 0, 0]"
proof -
  have three: "nat 3 = Suc (Suc (Suc 0))"
    by simp
  show ?thesis
    using C1_first_L_calls_pass_next_fails
      [of 3 "''ip:1.2.3.4''" 1000 "\<lparr> redis_state = (), memoryStore = [] \<rparr>"
          "[2000, 3000, 61000]" 60 "(5000, 1000)" "\<lparr> redis_state = [], memoryStore = [] \<rparr>"
          "[(6000, 2000), (7000, 3000), (64999, 61000)]"]
    unfolding three
    by (simp add: fresh_local_def ref_live_def)
qed




text \<open>
  C10. A combined call counts on both dimensions, whatever its outcome: afterwards the
  record of the address key and the record of the e-mail key are each the one a call for
  that key alone leaves (count raised by one within a window, count 1 in a new window),
  also when the other dimension is over its limit and the combined result is a refusal.
  The same holds for the two counters in the store.
\<close>

theorem C10_both_counters_advance:
  shows "map_of (memoryStore (snd (rateLimitCombined None req email ipLimit emailLimit
                    windowSeconds nowIP nowEmail w)))
           (''ratelimit:'' @ ''ip:'' @ getClientIP req) =
           Some (next_record nowIP (nowIP + windowSeconds * 1000)
                   (map_of (memoryStore w) (''ratelimit:'' @ ''ip:'' @ getClientIP req)))
       \<and> map_of (memoryStore (snd (rateLimitCombined None req email ipLimit emailLimit
                    windowSeconds nowIP nowEmail w)))
           (''ratelimit:'' @ ''email:'' @ email) =
           Some (next_record nowEmail (nowEmail + windowSeconds * 1000)
                   (map_of (memoryStore w) (''ratelimit:'' @ ''email:'' @ email)))
       \<and> (0 < windowSeconds \<longrightarrow>
           map_of (redis_state (snd (rateLimitCombined (Some (ref_redis c)) req email ipLimit
                     emailLimit windowSeconds nowIP nowEmail v)))
             (''ratelimit:'' @ ''ip:'' @ getClientIP req) =
             Some (ref_next_value c windowSeconds
                     (ref_live c (redis_state v) (''ratelimit:'' @ ''ip:'' @ getClientIP req)))
         \<and> map_of (redis_state (snd (rateLimitCombined (Some (ref_redis c)) req email ipLimit
                     emailLimit windowSeconds nowIP nowEmail v)))
             (''ratelimit:'' @ ''email:'' @ email) =
             Some (ref_next_value c windowSeconds
                     (ref_live c (redis_state v) (''ratelimit:'' @ ''email:'' @ email))))"
proof (intro conjI impI)
  let ?ip = "''ip:'' @ getClientIP req" and ?em = "''email:'' @ email"
  have differ: "''ratelimit:'' @ ?ip \<noteq> ''ratelimit:'' @ ?em"
    by simp
  let ?w1 = "snd (checkRateLimit None ?ip ipLimit windowSeconds nowIP w)"
  have final: "snd (rateLimitCombined None req email ipLimit emailLimit windowSeconds nowIP nowEmail w) =
                 snd (checkRateLimit None ?em emailLimit windowSeconds nowEmail ?w1)"
    by (simp add: rateLimitCombined_def rateLimitByIP_def rateLimitByEmail_def split: prod.splits)
  show "map_of (memoryStore (snd (rateLimitCombined None req email ipLimit emailLimit
                    windowSeconds nowIP nowEmail w)))
           (''ratelimit:'' @ ''ip:'' @ getClientIP req) =
           Some (next_record nowIP (nowIP + windowSeconds * 1000)
                   (map_of (memoryStore w) (''ratelimit:'' @ ''ip:'' @ getClientIP req)))"
    unfolding final checkRateLimit_None_store using differ by (simp add: update_conv')
  show "map_of (memoryStore (snd (rateLimitCombined None req email ipLimit emailLimit
                    windowSeconds nowIP nowEmail w)))
           (''ratelimit:'' @ ''email:'' @ email) =
           Some (next_record nowEmail (nowEmail + windowSeconds * 1000)
                   (map_of (memoryStore w) (''ratelimit:'' @ ''email:'' @ email)))"
    unfolding final checkRateLimit_None_store using differ by (simp add: update_conv')
next
  assume pos: "0 < windowSeconds"
  let ?ip = "''ip:'' @ getClientIP req" and ?em = "''email:'' @ email"
  have differ: "''ratelimit:'' @ ?ip \<noteq> ''ratelimit:'' @ ?em"
    by simp
  let ?v1 = "snd (checkRateLimit (Some (ref_redis c)) ?ip ipLimit windowSeconds nowIP v)"
  have final: "snd (rateLimitCombined (Some (ref_redis c)) req email ipLimit emailLimit
                      windowSeconds nowIP nowEmail v) =
                 snd (checkRateLimit (Some (ref_redis c)) ?em emailLimit windowSeconds nowEmail ?v1)"
    by (simp add: rateLimitCombined_def rateLimitByIP_def rateLimitByEmail_def split: prod.splits)
  show "map_of (redis_state (snd (rateLimitCombined (Some (ref_redis c)) req email ipLimit
                     emailLimit windowSeconds nowIP nowEmail v)))
             (''ratelimit:'' @ ''ip:'' @ getClientIP req) =
             Some (ref_next_value c windowSeconds
                     (ref_live c (redis_state v) (''ratelimit:'' @ ''ip:'' @ getClientIP req)))"
    unfolding final checkRateLimit_ref_store [OF pos] using differ by (simp add: update_conv')
  show "map_of (redis_state (snd (rateLimitCombined (Some (ref_redis c)) req email ipLimit
                     emailLimit windowSeconds nowIP nowEmail v)))
             (''ratelimit:'' @ ''email:'' @ email) =
             Some (ref_next_value c windowSeconds
                     (ref_live c (redis_state v) (''ratelimit:'' @ ''email:'' @ email)))"
    unfolding final checkRateLimit_ref_store [OF pos] using differ
    by (simp add: update_conv' ref_live_update_other)
qed

theorem C10_both_counters_advance_witness:
  "success (fst (rateLimitCombined None (map_of [(''x-real-ip'', ''5.6.7.8'')]) ''a@b.c'' 10 3 60 1000 1001
       \<lparr> redis_state = (),
         memoryStore = [(''ratelimit:ip:5.6.7.8'', \<lparr> count = 10, resetAt = 50000 \<rparr>),
                        (''ratelimit:email:a@b.c'', \<lparr> count = 1, resetAt = 40000 \<rparr>)] \<rparr>)) = False
   \<and> map_of (memoryStore (snd (rateLimitCombined None (map_of [(''x-real-ip'', ''5.6.7.8'')]) ''a@b.c'' 10 3 60 1000 1001
       \<lparr> redis_state = (),
         memoryStore = [(''ratelimit:ip:5.6.7.8'', \<lparr> count = 10, resetAt = 50000 \<rparr>),
                        (''ratelimit:email:a@b.c'', \<lparr> count = 1, resetAt = 40000 \<rparr>)] \<rparr>)))
       ''ratelimit:email:a@b.c'' = Some \<lparr> count = 2, resetAt = 40000 \<rparr>
   \<and> map_of (redis_state (snd (rateLimitCombined (Some (ref_redis 1000)) (map_of [(''x-real-ip'', ''5.6.7.8'')])
         ''a@b.c'' 10 3 60 1000 1001
       \<lparr> redis_state = [(''ratelimit:ip:5.6.7.8'', (10, Some 50000)),
                         (''ratelimit:email:a@b.c'', (1, Some 40000))],
         memoryStore = [] \<rparr>)))
       ''ratelimit:email:a@b.c'' = Some (2, Some 40000)"
proof -
  have ip: "getClientIP (map_of [(''x-real-ip'', ''5.6.7.8'')]) = ''5.6.7.8''"
    by code_simp
  have denied: "success (fst (rateLimitCombined None (map_of [(''x-real-ip'', ''5.6.7.8'')]) ''a@b.c'' 10 3 60 1000 1001
       \<lparr> redis_state = (),
         memoryStore = [(''ratelimit:ip:5.6.7.8'', \<lparr> count = 10, resetAt = 50000 \<rparr>),
                        (''ratelimit:email:a@b.c'', \<lparr> count = 1, resetAt = 40000 \<rparr>)] \<rparr>)) = False"
    by code_simp
  show ?thesis
    using denied
      C10_both_counters_advance
        [of "map_of [(''x-real-ip'', ''5.6.7.8'')]" "''a@b.c''" 10 3 60 1000 1001
            "\<lparr> redis_state = (),
               memoryStore = [(''ratelimit:ip:5.6.7.8'', \<lparr> count = 10, resetAt = 50000 \<rparr>),
                              (''ratelimit:email:a@b.c'', \<lparr> count = 1, resetAt = 40000 \<rparr>)] \<rparr>"
            1000
            "\<lparr> redis_state = [(''ratelimit:ip:5.6.7.8'', (10, Some 50000)),
                               (''ratelimit:email:a@b.c'', (1, Some 40000))],
               memoryStore = [] \<rparr>"]
    unfolding ip
    by (simp add: next_record_def ref_next_value_def ref_live_def)
qed

text \<open>
  C2 does not hold for a limit of zero or below: the new-window branch of the in-memory path
  returns \<open>limit - 1\<close> where the other two paths return \<open>max 0 (limit - count)\<close>. With
  limit 0 the first call returns \<open>remaining = -1\<close>.
\<close>

theorem C2_remaining_negative_on_new_window:
  "remaining (fst (checkRateLimit None ''ip:1.2.3.4'' 0 60 1000
                    \<lparr> redis_state = (), memoryStore = [] \<rparr>)) = - 1"
  by code_simp

text \<open>
  C3 does not hold on the in-memory path: the new-window branch returns \<open>success = True\<close>
  without comparing the count with the limit, so the first call of every window is admitted
  under limit 0, while the store path and the later calls of the window refuse.
\<close>

theorem C3_zero_limit_admits_first_call:
  "checkRateLimit None ''ip:1.2.3.4'' 0 60 1000 \<lparr> redis_state = (), memoryStore = [] \<rparr> =
     (\<lparr> success = True, limit = 0, remaining = - 1, reset = 61000 \<rparr>,
      \<lparr> redis_state = (),
        memoryStore = [(''ratelimit:ip:1.2.3.4'', \<lparr> count = 1, resetAt = 61000 \<rparr>)] \<rparr>)"
  by code_simp

end
